theory Spec2Isabelle
  imports Main
begin

section \<open>Python strings\<close>

text \<open>
  A Python \<open>str\<close> is modelled as a \<open>string\<close> of ASCII text.  The few non-ASCII symbols of
  the canned replies (bullets, emoji) are written as their UTF-8 bytes; they are only ever
  returned, never inspected.  Case conversion is the ASCII one: the 26 letters \<open>A\<close>..\<open>Z\<close>
  map to \<open>a\<close>..\<open>z\<close>, every other character is left alone.
\<close>

definition lower_char :: "char \<Rightarrow> char" where
  "lower_char c =
     (case map_of (zip ''ABCDEFGHIJKLMNOPQRSTUVWXYZ'' ''abcdefghijklmnopqrstuvwxyz'') c of
        Some l \<Rightarrow> l
      | None \<Rightarrow> c)"

text \<open>\<^verbatim>\<open>s.lower()\<close>\<close>

definition lower :: "string \<Rightarrow> string" where
  "lower s = map lower_char s"

text \<open>\<^verbatim>\<open>s.startswith(p)\<close>\<close>

fun startswith :: "string \<Rightarrow> string \<Rightarrow> bool" where
  "startswith s [] = True"
| "startswith [] (p # ps) = False"
| "startswith (c # s) (p # ps) = (c = p \<and> startswith s ps)"

text \<open>\<^verbatim>\<open>k in s\<close> on strings: \<open>k\<close> occurs in \<open>s\<close> as a contiguous substring.\<close>

fun str_in :: "string \<Rightarrow> string \<Rightarrow> bool" where
  "str_in k [] = (k = [])"
| "str_in k (c # s) = (startswith (c # s) k \<or> str_in k s)"

text \<open>The line feed.\<close>

definition nl :: string where
  "nl = [CHR 0x0A]"

text \<open>\<^verbatim>\<open>s.endswith(suf)\<close>\<close>

definition endswith :: "string \<Rightarrow> string \<Rightarrow> bool" where
  "endswith s suf = startswith (rev s) (rev suf)"

text \<open>
  \<^verbatim>\<open>s.find(sub, start)\<close>: the lowest index at or after \<open>start\<close> where \<open>sub\<close> begins, or
  \<open>-1\<close>.  \<open>find_at s sub i\<close> scans the suffix \<open>s\<close> that begins at index \<open>i\<close>.
\<close>

fun find_at :: "string \<Rightarrow> string \<Rightarrow> nat \<Rightarrow> int" where
  "find_at [] sub i = (if sub = [] then int i else - 1)"
| "find_at (c # s) sub i = (if startswith (c # s) sub then int i else find_at s sub (Suc i))"

definition str_find :: "string \<Rightarrow> string \<Rightarrow> int \<Rightarrow> int" where
  "str_find s sub start =
     (let n = int (length s);
          st = (if start < 0 then max (start + n) 0 else start)
      in if st > n then - 1 else find_at (drop (nat st) s) sub (nat st))"

text \<open>\<^verbatim>\<open>s[a:b]\<close>: a negative bound counts from the end, and both bounds are clamped.\<close>

definition slice :: "'a list \<Rightarrow> int \<Rightarrow> int \<Rightarrow> 'a list" where
  "slice s a b =
     (let n = int (length s);
          lo = (if a < 0 then max (a + n) 0 else min a n);
          hi = (if b < 0 then max (b + n) 0 else min b n)
      in take (nat (hi - lo)) (drop (nat lo) s))"

text \<open>\<^verbatim>\<open>xs[-k:]\<close> for \<open>k > 0\<close>: the last \<open>k\<close> elements, all of them when there are fewer.\<close>

definition last_n :: "nat \<Rightarrow> 'a list \<Rightarrow> 'a list" where
  "last_n k xs = drop (length xs - k) xs"

text \<open>\<^verbatim>\<open>c.isspace()\<close> on ASCII: tab, line feed, VT, FF, CR, the separators 28..31, space.\<close>

definition isspace :: "char \<Rightarrow> bool" where
  "isspace c = (let n = (of_char c :: nat) in (9 \<le> n \<and> n \<le> 13) \<or> (28 \<le> n \<and> n \<le> 32))"

text \<open>\<^verbatim>\<open>s.strip()\<close>\<close>

definition strip :: "string \<Rightarrow> string" where
  "strip s = rev (dropWhile isspace (rev (dropWhile isspace s)))"

text \<open>\<^verbatim>\<open>str(n)\<close> for a non-negative integer.\<close>

fun str_nat :: "nat \<Rightarrow> string" where
  "str_nat n =
     (if n < 10 then [''0123456789'' ! n]
      else str_nat (n div 10) @ [''0123456789'' ! (n mod 10)])"

declare str_nat.simps [simp del]

section \<open>The keyword responder (\<open>GPTOSSModel._generate_text_response\<close>)\<close>

definition bullet :: string where
  "bullet = [CHR 0xE2, CHR 0x80, CHR 0xA2]"

definition hello_reply :: string where
  "hello_reply = ''Hello! I'm your GPT-OSS assistant. How can I help you today?''"

definition hi_reply :: string where
  "hi_reply = ''Hi there! I can help you analyze data, images, and answer questions.''"

definition help_reply :: string where
  "help_reply = ''I can:'' @ nl @ bullet @ '' Analyze CSV data'' @ nl @ bullet @
     '' Process images'' @ nl @ bullet @ '' Answer questions'' @ nl @ bullet @
     '' Provide Earth Observation insights''"

definition what_reply :: string where
  "what_reply = ''I'm a multimodal AI assistant that can:'' @ nl @
     [CHR 0xF0, CHR 0x9F, CHR 0x93, CHR 0x8A] @ '' Analyze CSV data'' @ nl @
     [CHR 0xF0, CHR 0x9F, CHR 0x96, CHR 0xBC, CHR 0xEF, CHR 0xB8, CHR 0x8F] @
     '' Process and describe images'' @ nl @
     [CHR 0xF0, CHR 0x9F, CHR 0x8C, CHR 0x8D] @ '' Provide Earth Observation analysis'' @ nl @
     [CHR 0xF0, CHR 0x9F, CHR 0x92, CHR 0xAC] @ '' Answer questions using available data''"

text \<open>The dictionary \<open>responses\<close>; a Python dict iterates in insertion order.\<close>

definition responses :: "(string \<times> string) list" where
  "responses =
     [(''hello'', hello_reply),
      (''hi'', hi_reply),
      (''help'', help_reply),
      (''what can you do'', what_reply)]"

text \<open>The loop \<^verbatim>\<open>for key, response in responses.items(): if key in lower_input: return response\<close>.\<close>

fun first_response :: "(string \<times> string) list \<Rightarrow> string \<Rightarrow> string option" where
  "first_response [] lower_input = None"
| "first_response ((key, response) # rest) lower_input =
     (if str_in key lower_input then Some response else first_response rest lower_input)"

definition default_response :: "string \<Rightarrow> string" where
  "default_response text_input =
     ''I understand you're asking about: '' @ text_input @
     ''. I can help you analyze this using available data and models.''"

definition generate_text_response :: "string \<Rightarrow> string" where
  "generate_text_response text_input =
     (let lower_input = lower text_input in
      case first_response responses lower_input of
        Some response \<Rightarrow> response
      | None \<Rightarrow> default_response text_input)"

section \<open>The session store (\<open>ChatSession\<close>)\<close>

text \<open>A message dictionary as built by \<open>add_message\<close>.\<close>

record message =
  role :: string
  content :: string
  timestamp :: string
  image_path :: "string option"
  csv_used :: bool

record chat_session =
  session_id :: string
  messages :: "message list"
  created_at :: string

text \<open>\<open>ChatSession.__init__\<close>; \<open>now\<close> is the reading of the clock.\<close>

definition ChatSession :: "string \<Rightarrow> string \<Rightarrow> chat_session" where
  "ChatSession now sid = \<lparr>session_id = sid, messages = [], created_at = now\<rparr>"

text \<open>
  \<open>ChatSession.add_message\<close>.  The session is updated in place by the source and returned
  here; \<open>now\<close> is the formatted reading of the clock.
\<close>

definition add_message ::
  "string \<Rightarrow> string \<Rightarrow> string \<Rightarrow> string option \<Rightarrow> bool \<Rightarrow> chat_session \<Rightarrow> chat_session" where
  "add_message now r c img csv s =
     (let message = \<lparr>role = r, content = c, timestamp = now, image_path = img, csv_used = csv\<rparr>;
          appended = messages s @ [message]
      in s\<lparr>messages := (if length appended > 50 then last_n 50 appended else appended)\<rparr>)"

text \<open>
  A sequence of calls of \<open>add_message\<close> on one session, each given by its clock reading and
  its four arguments.
\<close>

type_synonym turn_args = "string \<times> string \<times> string \<times> string option \<times> bool"

fun turn_of :: "turn_args \<Rightarrow> message" where
  "turn_of (now, r, c, img, csv) =
     \<lparr>role = r, content = c, timestamp = now, image_path = img, csv_used = csv\<rparr>"

fun add_messages :: "chat_session \<Rightarrow> turn_args list \<Rightarrow> chat_session" where
  "add_messages s [] = s"
| "add_messages s ((now, r, c, img, csv) # rest) =
     add_messages (add_message now r c img csv s) rest"

section \<open>The media analyzer (\<open>GPTOSSModel.analyze_image\<close>)\<close>

text \<open>
  The file system as the code sees it: \<open>path_exists\<close> is \<^verbatim>\<open>os.path.exists\<close>, and
  \<open>read_text\<close> is \<^verbatim>\<open>open(path, 'r').read()\<close>, which gives the text of the file (\<open>Inr\<close>)
  or raises an exception (\<open>Inl\<close>, with the exception's \<^verbatim>\<open>str\<close>).
\<close>

record filesystem =
  path_exists :: "string \<Rightarrow> bool"
  read_text :: "string \<Rightarrow> string + string"

text \<open>\<^verbatim>\<open>os.path.basename\<close> (POSIX): what follows the last slash.\<close>

definition basename :: "string \<Rightarrow> string" where
  "basename p = rev (takeWhile (\<lambda>c. c \<noteq> CHR ''/'') (rev p))"

definition analyze_image :: "filesystem \<Rightarrow> string \<Rightarrow> string" where
  "analyze_image fs path =
     (if endswith path ''.txt'' then
        (case read_text fs path of
           Inl e \<Rightarrow> ''Error analyzing image: '' @ e
         | Inr file_content \<Rightarrow>
             if str_in ''Description:'' file_content then
               (let desc_start = str_find file_content ''Description:'' 0 + int (length ''Description:'');
                    desc_end = str_find file_content nl desc_start
                in strip (slice file_content desc_start desc_end))
             else ''Image placeholder file'')
      else ''Analyzed image: '' @ basename path)"

section \<open>The tabular store (\<open>GPTOSSModel.search_csv_data\<close>)\<close>

text \<open>
  A pandas \<open>DataFrame\<close> as \<open>read_csv\<close> builds it (pandas 1.x and 2.x): named columns, each
  with a dtype, and rows of cells.  Only the dtype \<open>object\<close> is told apart from the others,
  as the code does.  A cell is a Python \<open>str\<close> or any other value (a number, NaN, ...),
  kept as it is in \<open>Other\<close>.
\<close>

datatype dtype = Object | Other_dtype

datatype 'v cell = Text string | Other 'v

record 'v dataframe =
  columns :: "(string \<times> dtype) list"
  rows :: "'v cell list list"

type_synonym 'v row_dict = "(string \<times> 'v cell) list"

text \<open>\<^verbatim>\<open>row.to_dict()\<close>: the cells of a row under their column names.\<close>

definition to_dict :: "'v dataframe \<Rightarrow> 'v cell list \<Rightarrow> 'v row_dict" where
  "to_dict df r = zip (map fst (columns df)) r"

text \<open>The search result dictionary \<^verbatim>\<open>{'file': ..., 'column': ..., 'data': ...}\<close>; the key \<open>file\<close> is the field \<open>source_file\<close>.\<close>

record 'v hit =
  source_file :: string
  column :: string
  data :: "'v row_dict"

subsection \<open>Regular expressions\<close>

text \<open>
  \<^verbatim>\<open>df[col].str.contains(query, case=False, na=False)\<close> is pandas and \<open>re\<close>, libraries
  outside the repository.  It does three things.  First \<^verbatim>\<open>df[col].str\<close> checks the values
  of the column and raises \<open>AttributeError\<close> when pandas infers for them a type other than
  strings (a column of booleans with missing values, say).  Then, \<open>regex=True\<close> being the
  default, \<open>query\<close> is compiled with \<^verbatim>\<open>re.compile(query, flags=re.IGNORECASE)\<close>, which
  raises \<open>re.error\<close> on a malformed pattern.  Last, the rows are kept in whose value the
  pattern finds a match (\<^verbatim>\<open>pattern.search(value)\<close>).

  The patterns modelled here are those built from ordinary characters and the dot: an
  ordinary character matches itself without regard to case, a dot matches any character but
  the line feed.  The rest is a parameter, the record \<open>pandas\<close>: \<open>str_accessor\<close> says
  whether the check of the column's values passes, and \<open>re_other\<close> says what \<open>re.compile\<close>
  does with a pattern that holds any other special character, raising (\<open>None\<close>) or giving
  some matcher.
\<close>

record 'v pandas =
  str_accessor :: "'v cell list \<Rightarrow> bool"
  re_other :: "string \<Rightarrow> (string \<Rightarrow> bool) option"

text \<open>The special characters of \<open>re\<close> other than the dot; \<open>CHR 0x5C\<close> is the backslash.\<close>

definition re_special :: string where
  "re_special = CHR 0x5C # ''^$*+?{}[]|()''"

datatype re_item = Lit char | AnyChar

definition parse_item :: "char \<Rightarrow> re_item" where
  "parse_item c = (if c = CHR ''.'' then AnyChar else Lit c)"

fun item_matches :: "re_item \<Rightarrow> char \<Rightarrow> bool" where
  "item_matches (Lit p) c = (lower_char c = lower_char p)"
| "item_matches AnyChar c = (c \<noteq> CHR 0x0A)"

text \<open>The items match a prefix of the string.\<close>

fun match_here :: "re_item list \<Rightarrow> string \<Rightarrow> bool" where
  "match_here [] s = True"
| "match_here (i # items) [] = False"
| "match_here (i # items) (c # s) = (item_matches i c \<and> match_here items s)"

text \<open>\<^verbatim>\<open>pattern.search(s) is not None\<close>: the items match at some position of the string.\<close>

fun re_search :: "re_item list \<Rightarrow> string \<Rightarrow> bool" where
  "re_search items [] = match_here items []"
| "re_search items (c # s) = (match_here items (c # s) \<or> re_search items s)"

definition re_compile ::
  "(string \<Rightarrow> (string \<Rightarrow> bool) option) \<Rightarrow> string \<Rightarrow> (string \<Rightarrow> bool) option" where
  "re_compile ext pat =
     (if list_all (\<lambda>c. c \<notin> set re_special) pat then Some (re_search (map parse_item pat))
      else ext pat)"

subsection \<open>The search\<close>

text \<open>\<^verbatim>\<open>df[col]\<close> at one row.\<close>

definition cell_of :: "'v dataframe \<Rightarrow> string \<Rightarrow> 'v cell list \<Rightarrow> 'v cell option" where
  "cell_of df col r = map_of (to_dict df r) col"

text \<open>One entry of the mask of \<open>str.contains\<close>; with \<open>na=False\<close> a value that is no string gives \<open>False\<close>.\<close>

fun contains_cell :: "(string \<Rightarrow> bool) \<Rightarrow> 'v cell option \<Rightarrow> bool" where
  "contains_cell m (Some (Text s)) = m s"
| "contains_cell m (Some (Other v)) = False"
| "contains_cell m None = False"

text \<open>\<^verbatim>\<open>matches = df[df[col].str.contains(...)]\<close> and the hits appended for its rows.\<close>

definition column_hits :: "(string \<Rightarrow> bool) \<Rightarrow> string \<Rightarrow> 'v dataframe \<Rightarrow> string \<Rightarrow> 'v hit list" where
  "column_hits m filename df col =
     map (\<lambda>r. \<lparr>source_file = filename, column = col, data = to_dict df r\<rparr>)
       (filter (\<lambda>r. contains_cell m (cell_of df col r)) (rows df))"

text \<open>The values of \<^verbatim>\<open>df[col]\<close>.\<close>

definition column_values :: "'v dataframe \<Rightarrow> string \<Rightarrow> 'v cell list" where
  "column_values df col = List.map_filter (cell_of df col) (rows df)"

text \<open>
  The loop over the columns of one file, inside \<open>try\<close>: when \<open>.str\<close> or \<open>contains\<close> raises,
  the \<open>except\<close> clause ends the loop for this file, and the hits appended so far stay.
\<close>

fun search_columns ::
  "'v pandas \<Rightarrow> string \<Rightarrow> 'v dataframe \<Rightarrow> string \<Rightarrow> (string \<times> dtype) list \<Rightarrow> 'v hit list" where
  "search_columns lib filename df query [] = []"
| "search_columns lib filename df query ((col, dt) # cols) =
     (if dt = Object then
        (if str_accessor lib (column_values df col) then
           (case re_compile (re_other lib) query of
              None \<Rightarrow> []
            | Some m \<Rightarrow> column_hits m filename df col @ search_columns lib filename df query cols)
         else [])
      else search_columns lib filename df query cols)"

text \<open>\<open>csv_data\<close> is the dictionary from file name to table, in insertion order.\<close>

definition search_csv_data ::
  "'v pandas \<Rightarrow> (string \<times> 'v dataframe) list \<Rightarrow> string \<Rightarrow> 'v hit list" where
  "search_csv_data lib csv_data query =
     concat (map (\<lambda>(filename, df). search_columns lib filename df query (columns df)) csv_data)"

text \<open>The route \<open>/search_csv\<close> of \<open>app.py\<close>; \<open>q\<close> is the request argument, if given.\<close>

definition search_csv ::
  "'v pandas \<Rightarrow> (string \<times> 'v dataframe) list \<Rightarrow> string option \<Rightarrow> 'v hit list" where
  "search_csv lib csv_data q =
     (let query = (case q of None \<Rightarrow> [] | Some v \<Rightarrow> v) in
      if query = [] then [] else take 10 (search_csv_data lib csv_data query))"

text \<open>Every text-typed column of every table passes the check of \<^verbatim>\<open>.str\<close>.\<close>

definition str_columns_ok :: "'v pandas \<Rightarrow> (string \<times> 'v dataframe) list \<Rightarrow> bool" where
  "str_columns_ok lib csv_data =
     list_all (\<lambda>(filename, df).
       list_all (\<lambda>(col, dt). dt \<noteq> Object \<or> str_accessor lib (column_values df col)) (columns df))
       csv_data"

text \<open>
  The search as the specification words it: over the tables, their text-typed columns and
  their rows, in this order, the rows whose value in the column is a string that satisfies
  \<open>P\<close>.
\<close>

definition hits_where :: "(string \<Rightarrow> bool) \<Rightarrow> (string \<times> 'v dataframe) list \<Rightarrow> 'v hit list" where
  "hits_where P csv_data =
     concat (map (\<lambda>(filename, df).
        concat (map (\<lambda>(col, dt).
          if dt = Object then
            map (\<lambda>r. \<lparr>source_file = filename, column = col, data = to_dict df r\<rparr>)
              (filter (\<lambda>r. case cell_of df col r of Some (Text s) \<Rightarrow> P s | _ \<Rightarrow> False) (rows df))
          else []) (columns df))) csv_data)"

text \<open>\<open>q\<close> occurs in \<open>s\<close> as a literal substring, without regard to case.\<close>

definition contains_nocase :: "string \<Rightarrow> string \<Rightarrow> bool" where
  "contains_nocase q s = str_in (lower q) (lower s)"

section \<open>The response composer (\<open>GPTOSSModel.generate_response\<close>)\<close>

text \<open>
  One line of \<open>csv_context\<close>:
  \<^verbatim>\<open>f"{i+1}. From {result['file']}: {str(result['data'])}\n"\<close>.
  \<open>str_dict\<close> is Python's \<open>str\<close> on the row dictionary, a builtin taken as a parameter.
\<close>

definition hit_line :: "('v row_dict \<Rightarrow> string) \<Rightarrow> nat \<times> 'v hit \<Rightarrow> string" where
  "hit_line str_dict = (\<lambda>(i, result).
     str_nat (i + 1) @ ''. From '' @ source_file result @ '': '' @ str_dict (data result) @ nl)"

text \<open>The lines for \<^verbatim>\<open>enumerate(csv_results[:3])\<close>.\<close>

definition hit_lines :: "('v row_dict \<Rightarrow> string) \<Rightarrow> 'v hit list \<Rightarrow> string list" where
  "hit_lines str_dict csv_results = map (hit_line str_dict) (enumerate 0 (take 3 csv_results))"

text \<open>Neither "hello" nor "hi" occurs in the text, without regard to case.\<close>

definition no_greeting :: "string \<Rightarrow> bool" where
  "no_greeting s = (\<not> str_in ''hello'' (lower s) \<and> \<not> str_in ''hi'' (lower s))"

definition generate_response_with_csv ::
  "('v row_dict \<Rightarrow> string) \<Rightarrow> string \<Rightarrow> 'v hit list \<Rightarrow> string \<Rightarrow> string" where
  "generate_response_with_csv str_dict text_input csv_results image_analysis =
     (let csv_context = ''Relevant data found:'' @ nl @ concat (hit_lines str_dict csv_results);
          prompt = ''Based on the following data and context:'' @ nl @ nl @
                   csv_context @ nl @ nl @
                   ''Image Analysis: '' @ image_analysis @ nl @ nl @
                   ''User Question: '' @ text_input @ nl @ nl @
                   ''Please provide a helpful response using the available data.''
      in generate_text_response prompt)"

definition generate_response_with_image :: "string \<Rightarrow> string \<Rightarrow> string" where
  "generate_response_with_image text_input image_analysis =
     (let prompt = ''Image Analysis: '' @ image_analysis @ nl @ nl @
                   ''User Question: '' @ text_input @ nl @ nl @
                   ''Please provide a response based on the image analysis.''
      in generate_text_response prompt)"

text \<open>The search step of \<open>generate_response\<close>: only when asked for and when tables are loaded.\<close>

definition csv_results_of ::
  "'v pandas \<Rightarrow> (string \<times> 'v dataframe) list \<Rightarrow> string \<Rightarrow> bool \<Rightarrow> 'v hit list" where
  "csv_results_of lib csv_data text_input use_csv =
     (if use_csv \<and> csv_data \<noteq> [] then search_csv_data lib csv_data text_input else [])"

text \<open>The image step: only for a non-empty path that exists.\<close>

definition image_analysis_of :: "filesystem \<Rightarrow> string option \<Rightarrow> string" where
  "image_analysis_of fs img =
     (case img of
        None \<Rightarrow> []
      | Some p \<Rightarrow> if p \<noteq> [] \<and> path_exists fs p then analyze_image fs p else [])"

definition generate_response ::
  "'v pandas \<Rightarrow> ('v row_dict \<Rightarrow> string) \<Rightarrow> (string \<times> 'v dataframe) list
     \<Rightarrow> filesystem \<Rightarrow> string \<Rightarrow> string option \<Rightarrow> bool \<Rightarrow> string" where
  "generate_response lib str_dict csv_data fs text_input img use_csv =
     (let csv_results = csv_results_of lib csv_data text_input use_csv;
          image_analysis = image_analysis_of fs img
      in if csv_results \<noteq> [] then
           generate_response_with_csv str_dict text_input csv_results image_analysis
         else if image_analysis \<noteq> [] then
           generate_response_with_image text_input image_analysis
         else generate_text_response text_input)"

section \<open>The request handler (\<open>chat\<close> of \<open>app.py\<close>)\<close>

text \<open>An uploaded file (werkzeug's \<open>FileStorage\<close>); it is truthy when its file name is not empty.\<close>

record upload =
  upload_filename :: string
  upload_body :: string

text \<open>
  What the handler reads of a request: the \<open>session_id\<close> of the signed session cookie, the
  form fields \<open>message\<close> and \<open>use_csv\<close>, the file \<open>image\<close>; each may be absent.
\<close>

record chat_request =
  cookie_session_id :: "string option"
  form_message :: "string option"
  form_use_csv :: "string option"
  files_image :: "upload option"

text \<open>
  The readings of \<open>datetime.now()\<close> during one call, already formatted: for a session made
  on the way, for the upload's file name, for the user turn and for the assistant turn.
\<close>

record clock =
  now_created :: string
  now_upload :: string
  now_user :: string
  now_reply :: string

text \<open>The process-wide dictionary \<open>chat_sessions\<close> and the file system.\<close>

record app_state =
  chat_sessions :: "string \<rightharpoonup> chat_session"
  files :: filesystem

text \<open>The JSON bodies the handler returns, with the status code beside them.\<close>

datatype reply =
  Success string string nat bool
| Error string

definition user_message_of :: "chat_request \<Rightarrow> string" where
  "user_message_of req = strip (case form_message req of None \<Rightarrow> [] | Some m \<Rightarrow> m)"

definition use_csv_of :: "chat_request \<Rightarrow> bool" where
  "use_csv_of req = (lower (case form_use_csv req of None \<Rightarrow> ''false'' | Some v \<Rightarrow> v) = ''true'')"

definition image_given :: "chat_request \<Rightarrow> bool" where
  "image_given req = (case files_image req of None \<Rightarrow> False | Some up \<Rightarrow> upload_filename up \<noteq> [])"

text \<open>\<^verbatim>\<open>os.path.join\<close> (POSIX) of two components.\<close>

definition path_join :: "string \<Rightarrow> string \<Rightarrow> string" where
  "path_join a b =
     (if startswith b ''/'' then b
      else if a = [] \<or> endswith a ''/'' then a @ b
      else a @ ''/'' @ b)"

text \<open>The path an upload is saved under.\<close>

definition upload_path :: "clock \<Rightarrow> string \<Rightarrow> upload \<Rightarrow> string" where
  "upload_path clk sid up =
     path_join ''static/uploads'' (sid @ ''_'' @ now_upload clk @ ''_'' @ upload_filename up)"

text \<open>
  The session the handler works on: the one registered under the identifier, or a new one
  registered on the spot.
\<close>

definition get_or_create :: "clock \<Rightarrow> string \<Rightarrow> app_state \<Rightarrow> chat_session \<times> app_state" where
  "get_or_create clk sid st =
     (case chat_sessions st sid of
        Some s \<Rightarrow> (s, st)
      | None \<Rightarrow>
          (let s = ChatSession (now_created clk) sid
           in (s, st\<lparr>chat_sessions := (chat_sessions st)(sid \<mapsto> s)\<rparr>)))"

text \<open>
  The upload step: \<^verbatim>\<open>if image_file and image_file.filename\<close>, the file is saved and its
  path kept.  \<open>save\<close> is \<open>os.makedirs\<close> followed by \<open>image_file.save\<close>, a parameter: it gives
  the file system with the upload stored (\<open>Inr\<close>) or raises (\<open>Inl\<close>).
\<close>

definition stored_upload ::
  "(filesystem \<Rightarrow> string \<Rightarrow> upload \<Rightarrow> string + filesystem) \<Rightarrow> clock \<Rightarrow> string \<Rightarrow> chat_request
     \<Rightarrow> filesystem \<Rightarrow> string + string option \<times> filesystem" where
  "stored_upload save clk sid req fs =
     (case files_image req of
        None \<Rightarrow> Inr (None, fs)
      | Some up \<Rightarrow>
          if upload_filename up \<noteq> [] then
            (case save fs (upload_path clk sid up) up of
               Inl e \<Rightarrow> Inl e
             | Inr fs' \<Rightarrow> Inr (Some (upload_path clk sid up), fs'))
          else Inr (None, fs))"

text \<open>
  The user turn and the \<open>try\<close> block.  \<open>gen\<close> is \<open>gptoss_model.generate_response\<close>, a
  parameter: it returns a text (\<open>Inr\<close>) or raises an exception (\<open>Inl\<close>, with the
  exception's \<^verbatim>\<open>str\<close>).
\<close>

definition respond ::
  "(filesystem \<Rightarrow> string \<Rightarrow> string option \<Rightarrow> bool \<Rightarrow> string + string) \<Rightarrow> clock \<Rightarrow> string
     \<Rightarrow> chat_request \<Rightarrow> chat_session \<Rightarrow> string option \<Rightarrow> filesystem \<Rightarrow> (reply \<times> nat) \<times> chat_session" where
  "respond gen clk sid req chat_session img fs =
     (let user_message = user_message_of req;
          use_csv = use_csv_of req;
          s1 = add_message (now_user clk) ''user'' user_message img False chat_session
      in case gen fs user_message img use_csv of
           Inr response \<Rightarrow>
             (let s2 = add_message (now_reply clk) ''assistant'' response None use_csv s1
              in ((Success response sid (length (messages s2)) use_csv, 200), s2))
         | Inl e \<Rightarrow>
             (let error_msg = ''Error generating response: '' @ e;
                  s2 = add_message (now_reply clk) ''assistant'' error_msg None False s1
              in ((Error error_msg, 500), s2)))"

text \<open>
  The handler.  The result is the reply with its status code, or \<open>Inl\<close> when an exception
  leaves the handler, and the state afterwards.
\<close>

definition chat ::
  "(filesystem \<Rightarrow> string \<Rightarrow> string option \<Rightarrow> bool \<Rightarrow> string + string)
     \<Rightarrow> (filesystem \<Rightarrow> string \<Rightarrow> upload \<Rightarrow> string + filesystem)
     \<Rightarrow> clock \<Rightarrow> chat_request \<Rightarrow> app_state \<Rightarrow> (string + reply \<times> nat) \<times> app_state" where
  "chat gen save clk req st =
     (case cookie_session_id req of
        None \<Rightarrow> (Inr (Error ''No session found'', 400), st)
      | Some sid \<Rightarrow>
          (let (chat_session, st1) = get_or_create clk sid st
           in if user_message_of req = [] \<and> \<not> image_given req then
                (Inr (Error ''No message or image provided'', 400), st1)
              else
                (case stored_upload save clk sid req (files st1) of
                   Inl e \<Rightarrow> (Inl e, st1)
                 | Inr (img, fs) \<Rightarrow>
                     (let (result, s2) = respond gen clk sid req chat_session img fs
                      in (Inr result,
                          st1\<lparr>chat_sessions := (chat_sessions st1)(sid \<mapsto> s2), files := fs\<rparr>)))))"

text \<open>The turns stored for an identifier; none when it is not registered.\<close>

definition turns_of :: "app_state \<Rightarrow> string \<Rightarrow> message list" where
  "turns_of st sid = (case chat_sessions st sid of None \<Rightarrow> [] | Some s \<Rightarrow> messages s)"

section \<open>Concrete inputs\<close>

text \<open>Fifty-one user turns, numbered 0 to 50 in their content.\<close>

definition turns51 :: "turn_args list" where
  "turns51 = map (\<lambda>i. (''2024-01-01 00:00:00'', ''user'', str_nat i, None, False)) [0..<51]"

text \<open>A file system where every path reads as a placeholder with no line break.\<close>

definition placeholder_fs :: filesystem where
  "placeholder_fs = \<lparr>path_exists = (\<lambda>p. True), read_text = (\<lambda>p. Inr ''Description: cat'')\<rparr>"

text \<open>One loaded table with a text column and a numeric column.\<close>

definition sample_csv :: "(string \<times> nat dataframe) list" where
  "sample_csv =
     [(''people.csv'',
       \<lparr>columns = [(''name'', Object), (''age'', Other_dtype)],
        rows = [[Text ''abc'', Other 30]]\<rparr>)]"

text \<open>
  An instance of the library parameter: the check of \<^verbatim>\<open>.str\<close> passes for the columns
  that hold strings only, and no pattern with other special characters compiles.  The
  queries below stay within the modelled patterns.
\<close>

definition sample_lib :: "nat pandas" where
  "sample_lib =
     \<lparr>str_accessor = list_all (\<lambda>c. case c of Text s \<Rightarrow> True | Other v \<Rightarrow> False),
      re_other = (\<lambda>pat. None)\<rparr>"

text \<open>An instance of the parameter \<open>str_dict\<close>, in the manner of Python, for rows with numbers.\<close>

fun show_cell :: "nat cell \<Rightarrow> string" where
  "show_cell (Text s) = [CHR 0x27] @ s @ [CHR 0x27]"
| "show_cell (Other n) = str_nat n"

fun show_items :: "nat row_dict \<Rightarrow> string" where
  "show_items [] = []"
| "show_items [(k, v)] = [CHR 0x27] @ k @ [CHR 0x27] @ '': '' @ show_cell v"
| "show_items ((k, v) # rest) =
     [CHR 0x27] @ k @ [CHR 0x27] @ '': '' @ show_cell v @ '', '' @ show_items rest"

definition show_row :: "nat row_dict \<Rightarrow> string" where
  "show_row d = ''{'' @ show_items d @ ''}''"

text \<open>
  A clock, a state with one registered session, two requests, and instances of the
  parameters of the handler: a generator that raises, a save that succeeds, and the
  generator of the application over the sample table.
\<close>

definition clock0 :: clock where
  "clock0 = \<lparr>now_created = ''2024-01-01 09:00:00'', now_upload = ''20240101_090000'',
             now_user = ''2024-01-01 09:00:00'', now_reply = ''2024-01-01 09:00:01''\<rparr>"

definition state1 :: app_state where
  "state1 = \<lparr>chat_sessions = [''s1'' \<mapsto> ChatSession ''2024-01-01 08:00:00'' ''s1''],
             files = placeholder_fs\<rparr>"

definition blank_request :: chat_request where
  "blank_request = \<lparr>cookie_session_id = Some ''s1'', form_message = Some ''   '',
                    form_use_csv = None, files_image = None\<rparr>"

definition hello_request :: chat_request where
  "hello_request = \<lparr>cookie_session_id = Some ''s1'', form_message = Some '' Hello there '',
                    form_use_csv = None, files_image = None\<rparr>"

definition failing_gen :: "filesystem \<Rightarrow> string \<Rightarrow> string option \<Rightarrow> bool \<Rightarrow> string + string" where
  "failing_gen fs text_input img use_csv = Inl ''model unavailable''"

definition keep_save :: "filesystem \<Rightarrow> string \<Rightarrow> upload \<Rightarrow> string + filesystem" where
  "keep_save fs p up = Inr fs"

definition app_gen :: "filesystem \<Rightarrow> string \<Rightarrow> string option \<Rightarrow> bool \<Rightarrow> string + string" where
  "app_gen fs text_input img use_csv =
     Inr (generate_response sample_lib show_row sample_csv fs text_input img use_csv)"

section \<open>Facts about strings\<close>

lemma startswith_iff: "startswith s p \<longleftrightarrow> (\<exists>ss. s = p @ ss)"
  by (induction s p rule: startswith.induct) auto

lemma str_in_iff: "str_in k s \<longleftrightarrow> (\<exists>ps ss. s = ps @ k @ ss)"
proof (induction s)
  case Nil
  then show ?case by auto
next
  case (Cons c s)
  show ?case
  proof
    assume "str_in k (c # s)"
    then consider "startswith (c # s) k" | "str_in k s" by auto
    then show "\<exists>ps ss. c # s = ps @ k @ ss"
    proof cases
      case 1
      then obtain ss where "c # s = k @ ss" by (auto simp: startswith_iff)
      then have "c # s = [] @ k @ ss" by simp
      then show ?thesis by blast
    next
      case 2
      then obtain ps ss where "s = ps @ k @ ss" using Cons.IH by auto
      then have "c # s = (c # ps) @ k @ ss" by simp
      then show ?thesis by blast
    qed
  next
    assume "\<exists>ps ss. c # s = ps @ k @ ss"
    then obtain ps ss where eq: "c # s = ps @ k @ ss" by auto
    show "str_in k (c # s)"
    proof (cases ps)
      case Nil
      with eq have "startswith (c # s) k" by (auto simp: startswith_iff)
      then show ?thesis by simp
    next
      case (Cons p ps')
      with eq have "s = ps' @ k @ ss" by simp
      then have "str_in k s" using Cons.IH by auto
      then show ?thesis by simp
    qed
  qed
qed

lemma str_in_self_append: "str_in k (a @ k @ b)"
  by (auto simp: str_in_iff)

lemma lower_append: "lower (a @ b) = lower a @ lower b"
  by (simp add: lower_def)

section \<open>Properties of the keyword responder\<close>

lemma first_response_index:
  "i < length rs \<Longrightarrow> str_in (fst (rs ! i)) l \<Longrightarrow> \<forall>j<i. \<not> str_in (fst (rs ! j)) l
     \<Longrightarrow> first_response rs l = Some (snd (rs ! i))"
proof (induction rs l arbitrary: i rule: first_response.induct)
  case (1 l)
  then show ?case by simp
next
  case (2 key response rest l)
  show ?case
  proof (cases i)
    case 0
    with "2.prems" show ?thesis by simp
  next
    case (Suc i')
    with "2.prems" have no: "\<not> str_in key l" by fastforce
    have "\<forall>j<i'. \<not> str_in (fst (rest ! j)) l"
    proof (intro allI impI)
      fix j assume "j < i'"
      then have "Suc j < i" using Suc by simp
      with "2.prems"(3) have "\<not> str_in (fst ((((key, response) # rest)) ! Suc j)) l" by blast
      then show "\<not> str_in (fst (rest ! j)) l" by simp
    qed
    moreover have "i' < length rest" "str_in (fst (rest ! i')) l"
      using "2.prems" Suc by auto
    ultimately have "first_response rest l = Some (snd (rest ! i'))"
      using "2.IH" no by blast
    with no Suc show ?thesis by simp
  qed
qed

lemma first_response_none:
  "(\<forall>k \<in> set (map fst rs). \<not> str_in k l) \<Longrightarrow> first_response rs l = None"
  by (induction rs l rule: first_response.induct) auto

lemma lower_hi_help_me: "lower ''hi, help me'' = ''hi, help me''"
  by (simp add: lower_def lower_char_def)

text \<open>
  C4.  The keyword responder lower-cases its input and answers with the reply of the first
  trigger, in the order hello, hi, help, what can you do, that occurs in the lowered input:
  whenever the trigger at position \<open>i\<close> occurs and none before it does, the reply at
  position \<open>i\<close> is returned.  For the input "hi, help me" that is the "hi" reply, which is
  not the "help" reply.
\<close>

theorem keyword_responder_first_trigger:
  "map fst responses = [''hello'', ''hi'', ''help'', ''what can you do'']
   \<and> (\<forall>t i. i < length responses \<and> str_in (fst (responses ! i)) (lower t)
          \<and> (\<forall>j<i. \<not> str_in (fst (responses ! j)) (lower t))
        \<longrightarrow> generate_text_response t = snd (responses ! i))
   \<and> generate_text_response ''hi, help me'' = hi_reply
   \<and> generate_text_response ''hi, help me'' \<noteq> help_reply"
proof (intro conjI allI impI)
  show "map fst responses = [''hello'', ''hi'', ''help'', ''what can you do'']"
    by (simp add: responses_def)
next
  fix t i
  assume "i < length responses \<and> str_in (fst (responses ! i)) (lower t)
          \<and> (\<forall>j<i. \<not> str_in (fst (responses ! j)) (lower t))"
  then have "first_response responses (lower t) = Some (snd (responses ! i))"
    using first_response_index by blast
  then show "generate_text_response t = snd (responses ! i)"
    by (simp add: generate_text_response_def)
next
  show hi: "generate_text_response ''hi, help me'' = hi_reply"
    by (simp add: generate_text_response_def lower_hi_help_me responses_def)
  have "hi_reply \<noteq> help_reply"
    by (simp add: hi_reply_def help_reply_def)
  with hi show "generate_text_response ''hi, help me'' \<noteq> help_reply" by simp
qed

theorem keyword_responder_first_trigger_witness:
  "Suc 0 < length responses \<and> fst (responses ! Suc 0) = ''hi''
   \<and> str_in ''hi'' (lower ''hi, help me'')
   \<and> \<not> str_in ''hello'' (lower ''hi, help me'')
   \<and> generate_text_response ''hi, help me'' = snd (responses ! Suc 0)"
proof -
  have h: "Suc 0 < length responses \<and> str_in (fst (responses ! Suc 0)) (lower ''hi, help me'')
           \<and> (\<forall>j<Suc 0. \<not> str_in (fst (responses ! j)) (lower ''hi, help me''))"
    by (simp add: responses_def lower_hi_help_me)
  from keyword_responder_first_trigger
  have "\<forall>t i. i < length responses \<and> str_in (fst (responses ! i)) (lower t)
          \<and> (\<forall>j<i. \<not> str_in (fst (responses ! j)) (lower t))
        \<longrightarrow> generate_text_response t = snd (responses ! i)"
    by blast
  with h have "generate_text_response ''hi, help me'' = snd (responses ! Suc 0)" by blast
  then show ?thesis by (simp add: responses_def lower_hi_help_me)
qed

text \<open>
  C8.  When no trigger occurs in the lowered input, the reply is the default echo, which
  contains the input as it was given, not lowered; the reply to "xyzzy" contains "xyzzy".
\<close>

theorem default_echo_contains_input:
  "(\<forall>t. (\<forall>k \<in> set (map fst responses). \<not> str_in k (lower t))
        \<longrightarrow> generate_text_response t = default_response t
            \<and> str_in t (generate_text_response t))
   \<and> str_in ''xyzzy'' (generate_text_response ''xyzzy'')"
proof -
  have gen: "generate_text_response t = default_response t
             \<and> str_in t (generate_text_response t)"
    if "\<forall>k \<in> set (map fst responses). \<not> str_in k (lower t)" for t
  proof -
    from that have "first_response responses (lower t) = None"
      by (rule first_response_none)
    then have eq: "generate_text_response t = default_response t"
      by (simp add: generate_text_response_def)
    have "str_in t (default_response t)"
      unfolding default_response_def by (rule str_in_self_append)
    with eq show ?thesis by simp
  qed
  have "\<forall>k \<in> set (map fst responses). \<not> str_in k (lower ''xyzzy'')"
    by (simp add: responses_def lower_def lower_char_def)
  from gen [OF this] have "str_in ''xyzzy'' (generate_text_response ''xyzzy'')" by blast
  with gen show ?thesis by blast
qed

theorem default_echo_contains_input_witness:
  "\<not> str_in ''hello'' (lower ''Xyzzy'') \<and> \<not> str_in ''hi'' (lower ''Xyzzy'')
   \<and> \<not> str_in ''help'' (lower ''Xyzzy'') \<and> \<not> str_in ''what can you do'' (lower ''Xyzzy'')
   \<and> generate_text_response ''Xyzzy'' = default_response ''Xyzzy''
   \<and> str_in ''Xyzzy'' (generate_text_response ''Xyzzy'')"
proof -
  have h: "\<forall>k \<in> set (map fst responses). \<not> str_in k (lower ''Xyzzy'')"
    by (simp add: responses_def lower_def lower_char_def)
  with default_echo_contains_input
  have "generate_text_response ''Xyzzy'' = default_response ''Xyzzy''
        \<and> str_in ''Xyzzy'' (generate_text_response ''Xyzzy'')" by blast
  moreover have "\<not> str_in ''hello'' (lower ''Xyzzy'') \<and> \<not> str_in ''hi'' (lower ''Xyzzy'')
   \<and> \<not> str_in ''help'' (lower ''Xyzzy'') \<and> \<not> str_in ''what can you do'' (lower ''Xyzzy'')"
    by (simp add: lower_def lower_char_def)
  ultimately show ?thesis by blast
qed

section \<open>Properties of the session store\<close>

lemma last_n_last_n_append: "last_n k (last_n k xs @ ys) = last_n k (xs @ ys)"
proof (cases "length xs \<le> k")
  case True
  then show ?thesis by (simp add: last_n_def)
next
  case False
  then have a: "length xs - k + k = length xs" by simp
  have b: "length xs + length ys - k = length ys + (length xs - k)" using False by simp
  show ?thesis by (simp add: last_n_def a b)
qed

lemma add_message_messages:
  "messages (add_message now r c img csv s) =
   last_n 50 (messages s @ [turn_of (now, r, c, img, csv)])"
  by (simp add: add_message_def Let_def last_n_def)

lemma add_messages_after_first:
  "messages (add_messages (add_message now r c img csv s) args) =
   last_n 50 (messages s @ turn_of (now, r, c, img, csv) # map turn_of args)"
proof (induction args arbitrary: s now r c img csv)
  case Nil
  then show ?case by (simp add: add_message_messages)
next
  case (Cons a args)
  obtain now' r' c' img' csv' where a: "a = (now', r', c', img', csv')" by (cases a) auto
  have "messages (add_messages (add_message now r c img csv s) (a # args)) =
        last_n 50 (messages (add_message now r c img csv s) @ turn_of a # map turn_of args)"
    using Cons.IH [of now' r' c' img' csv' "add_message now r c img csv s"] a by simp
  also have "\<dots> = last_n 50 ((messages s @ [turn_of (now, r, c, img, csv)])
                              @ turn_of a # map turn_of args)"
    unfolding add_message_messages by (rule last_n_last_n_append)
  finally show ?case by simp
qed

lemma add_messages_nonempty:
  assumes "args \<noteq> []"
  shows "messages (add_messages s args) = last_n 50 (messages s @ map turn_of args)"
proof -
  from assms obtain a rest where args: "args = a # rest" by (cases args) auto
  obtain now r c img csv where a: "a = (now, r, c, img, csv)" by (cases a) auto
  show ?thesis using add_messages_after_first [of now r c img csv s rest] args a by simp
qed

lemma add_message_le_50: "length (messages (add_message now r c img csv s)) \<le> 50"
  by (simp add: add_message_messages last_n_def)

text \<open>
  C3.  Whatever the session held before, after more than 50 calls of \<open>add_message\<close> its
  list of turns is the last 50 of the appended turns, in the order they were appended; and
  after any single \<open>add_message\<close> the list has at most 50 turns.
\<close>

theorem add_message_keeps_last_50:
  "(\<forall>s args. 50 < length args \<longrightarrow>
       messages (add_messages s args) = drop (length args - 50) (map turn_of args)
       \<and> length (messages (add_messages s args)) = 50)
   \<and> (\<forall>now r c img csv s. length (messages (add_message now r c img csv s)) \<le> 50)"
proof (intro conjI allI impI)
  fix s :: chat_session and args :: "turn_args list"
  assume n: "50 < length args"
  then have "args \<noteq> []" by auto
  then have "messages (add_messages s args) = last_n 50 (messages s @ map turn_of args)"
    by (rule add_messages_nonempty)
  also have "\<dots> = drop (length args - 50) (map turn_of args)"
    using n by (simp add: last_n_def)
  finally show m: "messages (add_messages s args) = drop (length args - 50) (map turn_of args)" .
  show "length (messages (add_messages s args)) = 50" using n by (simp add: m)
next
  fix now r c img csv s
  show "length (messages (add_message now r c img csv s)) \<le> 50"
    by (rule add_message_le_50)
qed

theorem add_message_keeps_last_50_witness:
  "50 < length turns51
   \<and> messages (add_messages (ChatSession ''2024-01-01 00:00:00'' ''s'') turns51) = drop 1 (map turn_of turns51)
   \<and> content (hd (messages (add_messages (ChatSession ''2024-01-01 00:00:00'' ''s'') turns51))) = ''1''"
proof -
  have l: "50 < length turns51" by (simp add: turns51_def)
  with add_message_keeps_last_50
  have m: "messages (add_messages (ChatSession ''2024-01-01 00:00:00'' ''s'') turns51)
        = drop (length turns51 - 50) (map turn_of turns51)" by blast
  have d: "length turns51 - 50 = 1" by (simp add: turns51_def)
  have "hd (drop 1 (map turn_of turns51)) = turn_of (turns51 ! 1)"
    by (simp add: hd_drop_conv_nth turns51_def)
  also have "content \<dots> = ''1''" by (simp add: turns51_def str_nat.simps)
  finally show ?thesis using l m d by simp
qed

section \<open>Properties of the media analyzer\<close>

lemma startswith_append_self: "startswith (sub @ rest) sub"
  by (simp add: startswith_iff)

lemma startswith_inside:
  assumes "startswith (pre @ sub @ rest) sub" "pre \<noteq> []"
  shows "str_in sub (pre @ butlast sub)"
proof (cases "sub = []")
  case True
  have "pre @ butlast sub = [] @ sub @ pre" using True by simp
  then show ?thesis unfolding str_in_iff by blast
next
  case False
  from assms(1) obtain ss where eq: "pre @ sub @ rest = sub @ ss" by (auto simp: startswith_iff)
  define a where "a = pre @ butlast sub"
  have len: "length sub \<le> length a" using assms(2) False
    by (cases pre) (auto simp: a_def)
  have "butlast sub @ [last sub] = sub" using False by simp
  then have split: "pre @ sub @ rest = a @ (last sub # rest)"
    by (metis a_def append_assoc append_Cons append_Nil)
  have "sub = take (length sub) (sub @ ss)" by simp
  also have "\<dots> = take (length sub) (a @ (last sub # rest))" using eq split by simp
  also have "\<dots> = take (length sub) a" using len by simp
  finally have "a = sub @ drop (length sub) a"
    by (metis append_take_drop_id)
  then have "a = [] @ sub @ drop (length sub) a" by simp
  then show ?thesis unfolding str_in_iff a_def by blast
qed

lemma find_at_first:
  "sub \<noteq> [] \<Longrightarrow> \<not> str_in sub (pre @ butlast sub)
     \<Longrightarrow> find_at (pre @ sub @ rest) sub i = int (i + length pre)"
proof (induction pre arbitrary: i)
  case Nil
  then obtain c s where "sub @ rest = c # s" by (cases sub) auto
  moreover have "startswith (sub @ rest) sub" by (rule startswith_append_self)
  ultimately show ?case by simp
next
  case (Cons p pre)
  have no_start: "\<not> startswith ((p # pre) @ sub @ rest) sub"
    using startswith_inside [of "p # pre" sub rest] Cons.prems(2) by blast
  have "\<not> str_in sub (pre @ butlast sub)" using Cons.prems(2) by simp
  then have "find_at (pre @ sub @ rest) sub (Suc i) = int (Suc i + length pre)"
    using Cons.IH Cons.prems(1) by blast
  with no_start show ?case by simp
qed

lemma find_at_absent: "c \<notin> set s \<Longrightarrow> find_at s [c] i = - 1"
  by (induction s arbitrary: i) auto

lemma slice_to_minus_one:
  "slice (pre @ rest) (int (length pre)) (- 1) = butlast rest"
proof (cases rest)
  case Nil
  then show ?thesis by (simp add: slice_def Let_def)
next
  case (Cons c cs)
  then show ?thesis by (simp add: slice_def Let_def butlast_conv_take)
qed

text \<open>
  C10.  For a \<open>.txt\<close> path whose text holds the marker \<open>Description:\<close> (first at the end
  of \<open>pre\<close>) and no line break after it, the search for the line break gives \<open>-1\<close> and
  the slice ends one character early: the description is the text after the marker without
  its last character, stripped as on every path.
\<close>

theorem analyze_image_drops_last_char:
  assumes "endswith path ''.txt''"
      and "read_text fs path = Inr (pre @ ''Description:'' @ rest)"
      and "\<not> str_in ''Description:'' (pre @ ''Description'')"
      and "CHR 0x0A \<notin> set rest"
    shows "analyze_image fs path = strip (butlast rest)"
proof -
  define m where "m = ''Description:''"
  have m_ne: "m \<noteq> []" and m_len: "int (length m) = 12" and m_but: "butlast m = ''Description''"
    by (simp_all add: m_def)
  let ?c = "pre @ m @ rest"
  have "\<not> str_in m (pre @ butlast m)" using assms(3) by (simp add: m_but) (simp add: m_def)
  then have "find_at ?c m 0 = int (0 + length pre)"
    using m_ne by (intro find_at_first)
  then have start: "str_find ?c m 0 = int (length pre)"
    by (simp add: str_find_def)
  have marker: "str_in m ?c" by (rule str_in_self_append)
  let ?ds = "int (length pre) + int (length m)"
  have ds: "?ds = int (length (pre @ m))" by simp
  have "drop (nat ?ds) ?c = rest" by simp
  then have stop: "str_find ?c nl ?ds = - 1"
    using assms(4) by (simp add: str_find_def nl_def find_at_absent)
  have sl: "slice ?c ?ds (- 1) = butlast rest"
    unfolding ds using slice_to_minus_one [of "pre @ m" rest] by simp
  have "analyze_image fs path =
          (let desc_start = str_find ?c m 0 + int (length m);
               desc_end = str_find ?c nl desc_start
           in strip (slice ?c desc_start desc_end))"
    using assms(1,2) marker unfolding m_def by (simp add: analyze_image_def)
  also have "\<dots> = strip (butlast rest)"
    by (simp only: Let_def start stop sl)
  finally show ?thesis .
qed

theorem analyze_image_drops_last_char_witness:
  "endswith ''photo.txt'' ''.txt''
   \<and> read_text placeholder_fs ''photo.txt'' = Inr ([] @ ''Description:'' @ '' cat'')
   \<and> \<not> str_in ''Description:'' ([] @ ''Description'')
   \<and> CHR 0x0A \<notin> set '' cat''
   \<and> analyze_image placeholder_fs ''photo.txt'' = strip (butlast '' cat'')
   \<and> analyze_image placeholder_fs ''photo.txt'' = ''ca''"
proof -
  have h1: "endswith ''photo.txt'' ''.txt''" by (simp add: endswith_def)
  have h2: "read_text placeholder_fs ''photo.txt'' = Inr ([] @ ''Description:'' @ '' cat'')"
    by (simp add: placeholder_fs_def)
  have h3: "\<not> str_in ''Description:'' ([] @ ''Description'')" by simp
  have h4: "CHR 0x0A \<notin> set '' cat''" by simp
  have r: "analyze_image placeholder_fs ''photo.txt'' = strip (butlast '' cat'')"
    using analyze_image_drops_last_char [OF h1 h2 h3 h4] .
  have "strip (butlast '' cat'') = ''ca''" by (simp add: strip_def isspace_def)
  with h1 h2 h3 h4 r show ?thesis by simp
qed

section \<open>Properties of the tabular store\<close>

lemma contains_cell_case:
  "contains_cell m x = (case x of Some (Text s) \<Rightarrow> m s | _ \<Rightarrow> False)"
  by (cases "(m, x)" rule: contains_cell.cases) auto

lemma search_columns_compiled:
  "re_compile (re_other lib) query = Some m \<Longrightarrow>
   list_all (\<lambda>(col, dt). dt \<noteq> Object \<or> str_accessor lib (column_values df col)) cols \<Longrightarrow>
   search_columns lib filename df query cols =
   concat (map (\<lambda>(col, dt). if dt = Object then column_hits m filename df col else []) cols)"
  by (induction cols) auto

lemma search_csv_data_compiled:
  assumes "re_compile (re_other lib) query = Some m" and "str_columns_ok lib csv_data"
  shows "search_csv_data lib csv_data query = hits_where m csv_data"
proof -
  have "search_columns lib filename df query (columns df) =
        concat (map (\<lambda>(col, dt).
          if dt = Object then
            map (\<lambda>r. \<lparr>source_file = filename, column = col, data = to_dict df r\<rparr>)
              (filter (\<lambda>r. case cell_of df col r of Some (Text s) \<Rightarrow> m s | _ \<Rightarrow> False) (rows df))
          else []) (columns df))"
    if "(filename, df) \<in> set csv_data" for filename and df :: "'a dataframe"
  proof -
    from that assms(2)
    have "list_all (\<lambda>(col, dt). dt \<noteq> Object \<or> str_accessor lib (column_values df col)) (columns df)"
      by (auto simp: str_columns_ok_def list_all_iff)
    from search_columns_compiled [OF assms(1) this] show ?thesis
      unfolding column_hits_def contains_cell_case .
  qed
  then have "map (\<lambda>(filename, df). search_columns lib filename df query (columns df)) csv_data =
             map (\<lambda>(filename, df). concat (map (\<lambda>(col, dt).
          if dt = Object then
            map (\<lambda>r. \<lparr>source_file = filename, column = col, data = to_dict df r\<rparr>)
              (filter (\<lambda>r. case cell_of df col r of Some (Text s) \<Rightarrow> m s | _ \<Rightarrow> False) (rows df))
          else []) (columns df))) csv_data"
    by (intro map_cong) auto
  then show ?thesis unfolding search_csv_data_def hits_where_def by (rule arg_cong)
qed

lemma match_here_plain:
  "CHR ''.'' \<notin> set q \<Longrightarrow> match_here (map parse_item q) s = startswith (lower s) (lower q)"
proof (induction q arbitrary: s)
  case Nil
  then show ?case by (simp add: lower_def)
next
  case (Cons p q)
  then show ?case by (cases s) (auto simp: lower_def parse_item_def)
qed

lemma re_search_plain:
  "CHR ''.'' \<notin> set q \<Longrightarrow> re_search (map parse_item q) s = contains_nocase q s"
proof (induction s)
  case Nil
  then show ?case by (cases q) (auto simp: contains_nocase_def lower_def)
next
  case (Cons c s)
  have "match_here (map parse_item q) (c # s) = startswith (lower (c # s)) (lower q)"
    using Cons.prems by (rule match_here_plain)
  moreover have "re_search (map parse_item q) s = contains_nocase q s"
    using Cons by blast
  ultimately show ?case by (simp add: contains_nocase_def lower_def)
qed

lemma sample_columns_ok: "str_columns_ok sample_lib sample_csv"
  by (simp add: str_columns_ok_def sample_lib_def sample_csv_def column_values_def
      List.map_filter_def cell_of_def to_dict_def)

text \<open>
  C1.  The search is to return no hits for the empty query.  The route \<open>/search_csv\<close> does
  so, by its guard.  \<open>search_csv_data\<close> has no such guard, and the search step of
  \<open>generate_response\<close> hands it the text as it comes, which is empty for a request with an
  image and no message: on the sample table the empty pattern matches the name and the row
  comes back.
\<close>

theorem search_empty_query_unguarded:
  "search_csv sample_lib sample_csv (Some []) = []
   \<and> search_csv_data sample_lib sample_csv [] =
       [\<lparr>source_file = ''people.csv'', column = ''name'',
         data = [(''name'', Text ''abc''), (''age'', Other 30)]\<rparr>]
   \<and> csv_results_of sample_lib sample_csv [] True =
       [\<lparr>source_file = ''people.csv'', column = ''name'',
         data = [(''name'', Text ''abc''), (''age'', Other 30)]\<rparr>]"
proof -
  have s: "search_csv_data sample_lib sample_csv [] =
       [\<lparr>source_file = ''people.csv'', column = ''name'',
         data = [(''name'', Text ''abc''), (''age'', Other 30)]\<rparr>]"
    by (simp add: search_csv_data_def re_compile_def sample_csv_def sample_lib_def column_hits_def
        column_values_def List.map_filter_def cell_of_def to_dict_def)
  have "sample_csv \<noteq> []" by (simp add: sample_csv_def)
  then have "csv_results_of sample_lib sample_csv [] True = search_csv_data sample_lib sample_csv []"
    by (simp add: csv_results_of_def)
  with s show ?thesis by (simp add: search_csv_def)
qed

text \<open>
  C2, as the claim states it, fails: the query is compiled as a regular expression, so
  \<open>a.c\<close> finds the row whose name is \<open>abc\<close>, a value that does not contain \<open>a.c\<close> as a
  literal substring.
\<close>

theorem search_is_regex_counterexample:
  "search_csv_data sample_lib sample_csv ''a.c'' =
     [\<lparr>source_file = ''people.csv'', column = ''name'',
       data = [(''name'', Text ''abc''), (''age'', Other 30)]\<rparr>]
   \<and> \<not> contains_nocase ''a.c'' ''abc''"
  by (simp add: search_csv_data_def re_compile_def re_special_def parse_item_def sample_csv_def
      sample_lib_def column_hits_def column_values_def List.map_filter_def cell_of_def to_dict_def
      contains_nocase_def lower_def lower_char_def)

text \<open>
  C2, amended.  For every non-empty query without a special character of regular
  expressions and every loaded mapping whose text-typed columns \<^verbatim>\<open>.str\<close> accepts, the
  hits are exactly, and in order, the rows whose value in a text-typed column is a string
  that contains the query as a literal substring, without regard to case.
\<close>

theorem search_plain_query_is_substring:
  assumes "q \<noteq> []" and "list_all (\<lambda>c. c \<notin> set re_special \<and> c \<noteq> CHR ''.'') q"
      and "str_columns_ok lib csv_data"
  shows "search_csv_data lib csv_data q = hits_where (contains_nocase q) csv_data"
proof -
  from assms(2) have dot: "CHR ''.'' \<notin> set q" and sp: "list_all (\<lambda>c. c \<notin> set re_special) q"
    by (auto simp: list_all_iff)
  have "re_search (map parse_item q) = contains_nocase q"
    using re_search_plain [OF dot] by auto
  with sp have "re_compile (re_other lib) q = Some (contains_nocase q)"
    by (simp add: re_compile_def)
  then show ?thesis using assms(3) by (rule search_csv_data_compiled)
qed

theorem search_plain_query_is_substring_witness:
  "''AB'' \<noteq> [] \<and> list_all (\<lambda>c. c \<notin> set re_special \<and> c \<noteq> CHR ''.'') ''AB''
   \<and> str_columns_ok sample_lib sample_csv
   \<and> search_csv_data sample_lib sample_csv ''AB'' = hits_where (contains_nocase ''AB'') sample_csv
   \<and> hits_where (contains_nocase ''AB'') sample_csv =
     [\<lparr>source_file = ''people.csv'', column = ''name'',
       data = [(''name'', Text ''abc''), (''age'', Other 30)]\<rparr>]"
proof -
  have h1: "''AB'' \<noteq> []" by simp
  have h2: "list_all (\<lambda>c. c \<notin> set re_special \<and> c \<noteq> CHR ''.'') ''AB''"
    by (simp add: re_special_def)
  have "hits_where (contains_nocase ''AB'') sample_csv =
     [\<lparr>source_file = ''people.csv'', column = ''name'',
       data = [(''name'', Text ''abc''), (''age'', Other 30)]\<rparr>]"
    by (simp add: hits_where_def sample_csv_def cell_of_def to_dict_def contains_nocase_def
        lower_def lower_char_def)
  with h1 h2 sample_columns_ok search_plain_query_is_substring [OF h1 h2 sample_columns_ok]
  show ?thesis by simp
qed

section \<open>Properties of the request handler\<close>

lemma get_or_create_files: "files (snd (get_or_create clk sid st)) = files st"
  by (simp add: get_or_create_def Let_def split: option.splits)

lemma get_or_create_registered:
  "chat_sessions st sid = Some s \<Longrightarrow> get_or_create clk sid st = (s, st)"
  by (simp add: get_or_create_def)

lemma chat_reaches_respond:
  assumes "cookie_session_id req = Some sid"
      and "\<not> (user_message_of req = [] \<and> \<not> image_given req)"
      and "stored_upload save clk sid req (files st) = Inr (img, fs)"
  shows "chat gen save clk req st =
           (Inr (fst (respond gen clk sid req (fst (get_or_create clk sid st)) img fs)),
            (snd (get_or_create clk sid st))
              \<lparr>chat_sessions := (chat_sessions (snd (get_or_create clk sid st)))
                  (sid \<mapsto> snd (respond gen clk sid req (fst (get_or_create clk sid st)) img fs)),
               files := fs\<rparr>)"
proof -
  obtain cs st1 where g: "get_or_create clk sid st = (cs, st1)" by (cases "get_or_create clk sid st")
  then have f: "files st1 = files st" using get_or_create_files [of clk sid st] by simp
  obtain result s2 where r: "respond gen clk sid req cs img fs = (result, s2)"
    by (cases "respond gen clk sid req cs img fs")
  have no: "(user_message_of req = [] \<and> \<not> image_given req) = False" using assms(2) by blast
  show ?thesis using assms(1,3) g f r by (simp add: chat_def no)
qed

lemma turns_of_update:
  "turns_of (st\<lparr>chat_sessions := (chat_sessions st)(sid \<mapsto> s), files := fs\<rparr>) sid = messages s"
  by (simp add: turns_of_def)


text \<open>
  C6.  A request of a registered session with no message (none, or only white space) and
  no image is answered with the error reply and status 400, and the state afterwards is the
  state before: no turn is appended.
\<close>

theorem chat_without_input_is_rejected:
  assumes "cookie_session_id req = Some sid" and "chat_sessions st sid = Some s"
      and "user_message_of req = []" and "\<not> image_given req"
  shows "chat gen save clk req st = (Inr (Error ''No message or image provided'', 400), st)"
  using assms by (simp add: chat_def get_or_create_registered)

theorem chat_without_input_is_rejected_witness:
  "cookie_session_id blank_request = Some ''s1''
   \<and> chat_sessions state1 ''s1'' = Some (ChatSession ''2024-01-01 08:00:00'' ''s1'')
   \<and> user_message_of blank_request = [] \<and> \<not> image_given blank_request
   \<and> chat failing_gen keep_save clock0 blank_request state1 =
       (Inr (Error ''No message or image provided'', 400), state1)
   \<and> turns_of state1 ''s1'' = []"
proof -
  have h1: "cookie_session_id blank_request = Some ''s1''" by (simp add: blank_request_def)
  have h2: "chat_sessions state1 ''s1'' = Some (ChatSession ''2024-01-01 08:00:00'' ''s1'')"
    by (simp add: state1_def)
  have h3: "user_message_of blank_request = []"
    by (simp add: user_message_of_def blank_request_def strip_def isspace_def)
  have h4: "\<not> image_given blank_request" by (simp add: image_given_def blank_request_def)
  have t: "turns_of state1 ''s1'' = []" by (simp add: turns_of_def state1_def ChatSession_def)
  from chat_without_input_is_rejected [OF h1 h2 h3 h4] h1 h2 h3 h4 t show ?thesis by simp
qed



text \<open>
  C9.  Whenever the handler returns the success reply, its \<open>message_count\<close> is the number of
  turns stored for the caller's session in the state after the call, which is at most 50.
\<close>

theorem chat_message_count:
  assumes "fst (chat gen save clk req st) = Inr (Success response sid n used, code)"
  shows "n = length (turns_of (snd (chat gen save clk req st)) sid)
       \<and> n \<le> 50 \<and> cookie_session_id req = Some sid \<and> code = 200"
proof -
  from assms obtain sid0 where ck: "cookie_session_id req = Some sid0"
    by (cases "cookie_session_id req") (auto simp: chat_def)
  obtain cs st1 where g: "get_or_create clk sid0 st = (cs, st1)"
    by (cases "get_or_create clk sid0 st")
  have f: "files st1 = files st" using get_or_create_files [of clk sid0 st] g by simp
  have ok: "\<not> (user_message_of req = [] \<and> \<not> image_given req)"
    using assms ck g by (auto simp: chat_def split: if_splits)
  obtain img fs where up: "stored_upload save clk sid0 req (files st) = Inr (img, fs)"
  proof (cases "stored_upload save clk sid0 req (files st)")
    case (Inl e)
    have no: "(user_message_of req = [] \<and> \<not> image_given req) = False" using ok by blast
    from assms ck g f Inl have False by (simp add: chat_def no)
    then show ?thesis ..
  next
    case (Inr p)
    then show ?thesis using that by (cases p) auto
  qed
  let ?r = "respond gen clk sid0 req cs img fs"
  have c: "chat gen save clk req st =
           (Inr (fst ?r), st1\<lparr>chat_sessions := (chat_sessions st1)(sid0 \<mapsto> snd ?r), files := fs\<rparr>)"
    using chat_reaches_respond [OF ck ok up, of gen] g by simp
  with assms have res: "fst ?r = (Success response sid n used, code)" by simp
  let ?s1 = "add_message (now_user clk) ''user'' (user_message_of req) img False cs"
  obtain txt0 where gen: "gen fs (user_message_of req) img (use_csv_of req) = Inr txt0"
    using res by (cases "gen fs (user_message_of req) img (use_csv_of req)")
      (auto simp: respond_def Let_def)
  let ?s2 = "add_message (now_reply clk) ''assistant'' txt0 None (use_csv_of req) ?s1"
  have r: "?r = ((Success txt0 sid0 (length (messages ?s2)) (use_csv_of req), 200), ?s2)"
    using gen by (simp add: respond_def Let_def)
  with res have eqs: "sid = sid0" "n = length (messages ?s2)" "code = 200" by auto
  have "turns_of (snd (chat gen save clk req st)) sid0 = messages ?s2"
    unfolding c using r by (simp add: turns_of_update)
  moreover have "length (messages ?s2) \<le> 50" by (rule add_message_le_50)
  ultimately show ?thesis using eqs ck by simp
qed

theorem chat_message_count_witness:
  "fst (chat app_gen keep_save clock0 hello_request state1)
     = Inr (Success hello_reply ''s1'' 2 False, 200)
   \<and> 2 = length (turns_of (snd (chat app_gen keep_save clock0 hello_request state1)) ''s1'')"
proof -
  have h1: "cookie_session_id hello_request = Some ''s1''" by (simp add: hello_request_def)
  have m: "user_message_of hello_request = ''Hello there''"
    by (simp add: user_message_of_def hello_request_def strip_def isspace_def)
  then have h2: "\<not> (user_message_of hello_request = [] \<and> \<not> image_given hello_request)" by simp
  have h3: "stored_upload keep_save clock0 ''s1'' hello_request (files state1) = Inr (None, placeholder_fs)"
    by (simp add: stored_upload_def hello_request_def state1_def)
  have u: "use_csv_of hello_request = False"
    by (simp add: use_csv_of_def hello_request_def lower_def lower_char_def)
  have "generate_text_response ''Hello there'' = hello_reply"
    by (simp add: generate_text_response_def responses_def lower_def lower_char_def)
  then have g: "app_gen placeholder_fs ''Hello there'' None False = Inr hello_reply"
    by (simp add: app_gen_def generate_response_def csv_results_of_def image_analysis_of_def)
  have cs: "fst (get_or_create clock0 ''s1'' state1) = ChatSession ''2024-01-01 08:00:00'' ''s1''"
    by (simp add: get_or_create_def state1_def)
  have "fst (respond app_gen clock0 ''s1'' hello_request
          (ChatSession ''2024-01-01 08:00:00'' ''s1'') None placeholder_fs)
        = (Success hello_reply ''s1'' 2 False, 200)"
    by (simp add: respond_def m u g add_message_def ChatSession_def Let_def)
  then have a: "fst (chat app_gen keep_save clock0 hello_request state1)
        = Inr (Success hello_reply ''s1'' 2 False, 200)"
    using chat_reaches_respond [OF h1 h2 h3, of app_gen] cs by simp
  from chat_message_count [OF a] a show ?thesis by simp
qed

section \<open>Properties of the response composer\<close>

lemma str_in_split_at:
  assumes "sep \<notin> set k"
  shows "str_in k (a @ sep # b) \<longleftrightarrow> str_in k a \<or> str_in k b"
proof
  assume "str_in k (a @ sep # b)"
  then obtain ps ss where eq: "a @ sep # b = ps @ k @ ss" by (auto simp: str_in_iff)
  then consider us where "a = ps @ us" "us @ sep # b = k @ ss"
    | us where "a @ us = ps" "sep # b = us @ k @ ss"
    by (auto simp: append_eq_append_conv2)
  then show "str_in k a \<or> str_in k b"
  proof cases
    case 1
    from 1(2) consider vs where "us = k @ vs" | vs where "us @ vs = k" "sep # b = vs @ ss"
      by (auto simp: append_eq_append_conv2)
    then show ?thesis
    proof cases
      case 1
      with \<open>a = ps @ us\<close> have "a = ps @ k @ vs" by simp
      then show ?thesis by (auto simp: str_in_iff)
    next
      case 2
      show ?thesis
      proof (cases vs)
        case Nil
        with 2 \<open>a = ps @ us\<close> have "a = ps @ k @ []" by simp
        then show ?thesis unfolding str_in_iff by blast
      next
        case (Cons v vs')
        with 2 have "sep \<in> set k" by auto
        with assms show ?thesis by simp
      qed
    qed
  next
    case 2
    show ?thesis
    proof (cases us)
      case Nil
      with 2 have kss: "sep # b = k @ ss" by simp
      show ?thesis
      proof (cases k)
        case Nil
        have "a = [] @ k @ a" using Nil by simp
        then show ?thesis unfolding str_in_iff by blast
      next
        case (Cons c k')
        with kss have "sep \<in> set k" by auto
        with assms show ?thesis by simp
      qed
    next
      case (Cons u us')
      with 2 have "b = us' @ k @ ss" by simp
      then show ?thesis by (auto simp: str_in_iff)
    qed
  qed
next
  assume "str_in k a \<or> str_in k b"
  then show "str_in k (a @ sep # b)"
  proof
    assume "str_in k a"
    then obtain ps ss where "a = ps @ k @ ss" by (auto simp: str_in_iff)
    then have "a @ sep # b = ps @ k @ (ss @ sep # b)" by simp
    then show ?thesis unfolding str_in_iff by blast
  next
    assume "str_in k b"
    then obtain ps ss where "b = ps @ k @ ss" by (auto simp: str_in_iff)
    then have "a @ sep # b = (a @ sep # ps) @ k @ ss" by simp
    then show ?thesis unfolding str_in_iff by blast
  qed
qed

lemma str_in_after_sep:
  "sep \<notin> set k \<Longrightarrow> k \<noteq> [] \<Longrightarrow> str_in k (sep # b) \<longleftrightarrow> str_in k b"
  using str_in_split_at [of sep k "[]" b] by (cases k) auto

lemma str_in_lines:
  assumes "sep \<notin> set k" and "\<forall>l \<in> set ls. \<exists>b. l = b @ [sep] \<and> \<not> str_in k l"
      and "\<not> str_in k rest"
  shows "\<not> str_in k (concat ls @ rest)"
  using assms(2)
proof (induction ls)
  case Nil
  then show ?case using assms(3) by simp
next
  case (Cons l ls)
  then obtain b where l: "l = b @ [sep]" and no: "\<not> str_in k l" by auto
  have "\<not> str_in k b"
  proof
    assume "str_in k b"
    then have "str_in k (b @ sep # [])" using str_in_split_at [OF assms(1)] by blast
    with l no show False by simp
  qed
  moreover have "\<not> str_in k (concat ls @ rest)" using Cons by simp
  ultimately have "\<not> str_in k (b @ sep # (concat ls @ rest))"
    using str_in_split_at [OF assms(1)] by blast
  with l show ?case by simp
qed


lemma hit_lines_end_nl:
  "l \<in> set (hit_lines str_dict csv_results) \<Longrightarrow> \<exists>b. lower l = b @ [CHR 0x0A]"
  by (auto simp: hit_lines_def hit_line_def nl_def lower_def lower_char_def)

lemma lower_concat: "lower (concat ls) = concat (map lower ls)"
  by (induction ls) (simp_all add: lower_def)

lemma prompt_tail_clean:
  assumes "k = ''hello'' \<or> k = ''hi''"
      and "\<not> str_in k (lower text_input)" and "\<not> str_in k (lower image_analysis)"
  shows "\<not> str_in k (lower (nl @ nl @ ''Image Analysis: '' @ image_analysis @ nl @ nl @
           ''User Question: '' @ text_input @ nl @ nl @
           ''Please provide a helpful response using the available data.''))"
  using assms
  by (auto simp: lower_def lower_char_def nl_def str_in_split_at)


lemma prompt_head_clean:
  assumes "k = ''hello'' \<or> k = ''hi''" and "\<not> str_in k rest"
  shows "\<not> str_in k (lower (''Based on the following data and context:'' @ nl @ nl @
           ''Relevant data found:'' @ nl) @ rest)"
  using assms by (auto simp: lower_def lower_char_def nl_def)

lemma prompt_has_help:
  "str_in ''help'' (lower (a @ ''Please provide a helpful response using the available data.''))"
proof -
  have "lower (a @ ''Please provide a helpful response using the available data.'')
        = (lower a @ ''please provide a '') @ ''help'' @ ''ful response using the available data.''"
    by (simp add: lower_def lower_char_def)
  then show ?thesis using str_in_self_append by metis
qed

lemma with_csv_gives_help:
  assumes "no_greeting text_input" and "no_greeting image_analysis"
      and "list_all no_greeting (hit_lines str_dict csv_results)"
  shows "generate_response_with_csv str_dict text_input csv_results image_analysis = help_reply"
proof -
  define tail where "tail = nl @ nl @ ''Image Analysis: '' @ image_analysis @ nl @ nl @
           ''User Question: '' @ text_input @ nl @ nl @
           ''Please provide a helpful response using the available data.''"
  define head where "head = ''Based on the following data and context:'' @ nl @ nl @
           ''Relevant data found:'' @ nl"
  define ls where "ls = hit_lines str_dict csv_results"
  define prompt where "prompt = head @ concat ls @ tail"
  have gen: "generate_response_with_csv str_dict text_input csv_results image_analysis
             = generate_text_response prompt"
    by (simp add: generate_response_with_csv_def prompt_def head_def tail_def ls_def)
  have low: "lower prompt = lower head @ concat (map lower ls) @ lower tail"
    by (simp add: prompt_def lower_append lower_concat)
  have clean: "\<not> str_in k (lower prompt)" if k: "k = ''hello'' \<or> k = ''hi''" for k
  proof -
    have t: "\<not> str_in k (lower tail)"
      unfolding tail_def using k assms(1,2) by (intro prompt_tail_clean) (auto simp: no_greeting_def)
    have sep: "CHR 0x0A \<notin> set k" using k by auto
    have "\<forall>l \<in> set (map lower ls). \<exists>b. l = b @ [CHR 0x0A] \<and> \<not> str_in k l"
    proof
      fix l assume "l \<in> set (map lower ls)"
      then obtain l0 where l0: "l0 \<in> set ls" "l = lower l0" by auto
      then have "no_greeting l0" using assms(3) by (simp add: ls_def list_all_iff)
      then have "\<not> str_in k l" using k l0 by (auto simp: no_greeting_def)
      moreover have "\<exists>b. l = b @ [CHR 0x0A]" using l0 hit_lines_end_nl unfolding ls_def by blast
      ultimately show "\<exists>b. l = b @ [CHR 0x0A] \<and> \<not> str_in k l" by blast
    qed
    then have "\<not> str_in k (concat (map lower ls) @ lower tail)"
      using sep t by (intro str_in_lines)
    then show ?thesis unfolding low head_def using k by (intro prompt_head_clean)
  qed
  have "prompt = (head @ concat ls @ nl @ nl @ ''Image Analysis: '' @ image_analysis @ nl @ nl @
           ''User Question: '' @ text_input @ nl @ nl) @
           ''Please provide a helpful response using the available data.''"
    by (simp add: prompt_def tail_def)
  then have hp: "str_in ''help'' (lower prompt)" using prompt_has_help by metis
  have "first_response responses (lower prompt) = Some help_reply"
    using clean [of "''hello''"] clean [of "''hi''"] hp by (simp add: responses_def)
  then show ?thesis by (simp add: gen generate_text_response_def)
qed

text \<open>
  C5.  When the search step of \<open>generate_response\<close> yields a hit, and neither "hello" nor
  "hi" occurs, without regard to case, in the user text, in the image analysis or in the
  lines written for the first three hits (number, file name and stringified row), the reply
  is the "help" reply: the fixed last sentence of the prompt contains "help" in "helpful".
\<close>

theorem csv_path_gives_help_reply:
  assumes "csv_results_of lib csv_data text_input use_csv \<noteq> []"
      and "no_greeting text_input"
      and "no_greeting (image_analysis_of fs img)"
      and "list_all no_greeting (hit_lines str_dict (csv_results_of lib csv_data text_input use_csv))"
  shows "generate_response lib str_dict csv_data fs text_input img use_csv = help_reply"
proof -
  have "generate_response lib str_dict csv_data fs text_input img use_csv =
        generate_response_with_csv str_dict text_input
          (csv_results_of lib csv_data text_input use_csv) (image_analysis_of fs img)"
    using assms(1) by (simp add: generate_response_def)
  also have "\<dots> = help_reply" using assms(2,3,4) by (rule with_csv_gives_help)
  finally show ?thesis .
qed

lemma sample_search_abc:
  "csv_results_of sample_lib sample_csv ''abc'' True =
     [\<lparr>source_file = ''people.csv'', column = ''name'',
       data = [(''name'', Text ''abc''), (''age'', Other 30)]\<rparr>]"
  by (simp add: csv_results_of_def search_csv_data_def re_compile_def re_special_def parse_item_def
      sample_csv_def sample_lib_def column_hits_def column_values_def List.map_filter_def
      cell_of_def to_dict_def lower_char_def)

lemma sample_hit_lines:
  "hit_lines show_row (csv_results_of sample_lib sample_csv ''abc'' True) =
     [''1. From people.csv: {'' @ [CHR 0x27] @ ''name'' @ [CHR 0x27] @ '': '' @ [CHR 0x27] @ ''abc''
        @ [CHR 0x27] @ '', '' @ [CHR 0x27] @ ''age'' @ [CHR 0x27] @ '': 30}'' @ nl]"
  by (simp add: sample_search_abc hit_lines_def hit_line_def enumerate_eq_zip show_row_def
      str_nat.simps nl_def)

theorem csv_path_gives_help_reply_witness:
  "csv_results_of sample_lib sample_csv ''abc'' True \<noteq> []
   \<and> no_greeting ''abc''
   \<and> no_greeting (image_analysis_of placeholder_fs None)
   \<and> list_all no_greeting (hit_lines show_row (csv_results_of sample_lib sample_csv ''abc'' True))
   \<and> generate_response sample_lib show_row sample_csv placeholder_fs ''abc'' None True = help_reply"
proof -
  have h1: "csv_results_of sample_lib sample_csv ''abc'' True \<noteq> []"
    by (simp add: sample_search_abc)
  have h2: "no_greeting ''abc''" by (simp add: no_greeting_def lower_def lower_char_def)
  have h3: "no_greeting (image_analysis_of placeholder_fs None)"
    by (simp add: no_greeting_def image_analysis_of_def lower_def)
  have h4: "list_all no_greeting (hit_lines show_row (csv_results_of sample_lib sample_csv ''abc'' True))"
    unfolding sample_hit_lines by (simp add: no_greeting_def lower_def lower_char_def nl_def)
  from csv_path_gives_help_reply [OF h1 h2 h3 h4] h1 h2 h3 h4
  show ?thesis by simp
qed

end
